theory Spec2Isabelle
  imports
    Main
    "HOL-Library.Sublist"
    "HOL-Library.Char_ord"
    "HOL-Library.List_Lexorder"
    "HOL-Library.Finite_Map"
begin

section \<open>ConfigureMacKeys: the shell-profile patcher of \<open>configkeys.py\<close>\<close>

text \<open>
  The development embeds class \<open>MacEnvManager\<close> of \<open>src/configkeys.py\<close>. A Python
  \<open>str\<close> is a \<^typ>\<open>string\<close>; a character stands for the code point of the same number
  (the range below 256). The file system, the process environment and the console are
  one record that every method takes and returns.
\<close>

subsection \<open>Python's string operations\<close>

abbreviation LF :: char where
  "LF \<equiv> CHR 0x0A"

text \<open>\<open>str.isspace\<close> on the code points below 256: tab to carriage return, the four
  separators \<open>0x1C\<close> to \<open>0x1F\<close>, the space, NEL and the no-break space.\<close>

definition isspace :: "char \<Rightarrow> bool" where
  "isspace c = (of_char c \<in> {9, 10, 11, 12, 13, 28, 29, 30, 31, 32, 133, 160 :: nat})"

text \<open>\<open>line.strip()\<close>: white space is removed from both ends.\<close>

definition strip :: "string \<Rightarrow> string" where
  "strip s = rev (dropWhile isspace (rev (dropWhile isspace s)))"

text \<open>\<open>s.startswith(p)\<close>.\<close>

definition startswith :: "string \<Rightarrow> string \<Rightarrow> bool" where
  "startswith s p = prefix p s"

text \<open>\<open>p in s\<close> on strings: \<open>p\<close> occurs in \<open>s\<close> as a contiguous piece.\<close>

definition str_in :: "string \<Rightarrow> string \<Rightarrow> bool" where
  "str_in p s = sublist p s"

text \<open>\<open>str.lower\<close> on the code points below 256: the letters A to Z and the accented
  capitals \<open>0xC0\<close> to \<open>0xDE\<close> (the multiplication sign \<open>0xD7\<close> apart) move up by 32.\<close>

definition lower_char :: "char \<Rightarrow> char" where
  "lower_char c =
     (let n = (of_char c :: nat)
      in if (65 \<le> n \<and> n \<le> 90) \<or> (192 \<le> n \<and> n \<le> 222 \<and> n \<noteq> 215)
         then char_of (n + 32) else c)"

definition lower :: "string \<Rightarrow> string" where
  "lower s = map lower_char s"

subsection \<open>Text files\<close>

text \<open>
  A file's content is the text that text-mode reading delivers. \<open>f.readlines()\<close> cuts it
  after every line feed: each line keeps its terminator, and only the last line may lack
  one. \<open>f.writelines(lines)\<close> writes the strings one after the other.
\<close>

fun readlines :: "string \<Rightarrow> string list" where
  "readlines [] = []"
| "readlines (c # cs) =
     (if c = LF then [LF] # readlines cs
      else (case readlines cs of
              [] \<Rightarrow> [[c]]
            | l # ls \<Rightarrow> (c # l) # ls))"

definition writelines :: "string list \<Rightarrow> string" where
  "writelines ls = concat ls"

subsection \<open>The world the tool runs in\<close>

text \<open>What the tool prints: one constructor for each message of the source, a run of
  \<open>print\<close> calls that always come together being one message.\<close>

datatype msg =
    No_vars_found "string option"
  | Found nat
  | Separator
  | Env_line string string
  | Err_reading
  | Backup_created
  | Err_backup
  | Err_empty_name
  | Temp_hint string string
  | Warn_backup
  | Added string
  | Err_writing
  | No_config_found
  | Not_found string
  | Removed string
  | Removed_session string

text \<open>The file-system calls the tool makes, in the order it makes them.\<close>

datatype io_event =
    Ev_exists
  | Ev_open_read
  | Ev_copy
  | Ev_mkdir
  | Ev_open_write

text \<open>
  \<open>config\<close> is the content of the primary configuration file \<open>~/.zshrc\<close> and \<open>backup\<close>
  that of \<open>~/.zshrc.backup\<close>, \<open>None\<close> for a file that does not exist. The four flags say
  whether reading the file, the \<open>cp\<close> subprocess, \<open>mkdir\<close> of the parent directory and
  opening the file for writing succeed or raise. \<open>environ\<close> is \<open>os.environ\<close>.
  A write that fails leaves the file as it was.
\<close>

record world =
  config :: "string option"
  backup :: "string option"
  read_ok :: bool
  cp_ok :: bool
  mkdir_ok :: bool
  write_ok :: bool
  environ :: "(string, string) fmap"
  console :: "msg list"
  trace :: "io_event list"

definition print :: "msg list \<Rightarrow> world \<Rightarrow> world" where
  "print ms w = w\<lparr>console := console w @ ms\<rparr>"

definition io :: "io_event list \<Rightarrow> world \<Rightarrow> world" where
  "io es w = w\<lparr>trace := trace w @ es\<rparr>"

subsection \<open>\<open>list_env_vars\<close>\<close>

text \<open>The display rule: a value longer than 100 characters is cut to 97 and three dots.\<close>

definition display_value :: "string \<Rightarrow> string" where
  "display_value v = (if length v \<le> 100 then v else take 97 v @ ''...'')"

text \<open>The \<open>for\<close> loop over the sorted keys; a key missing from the dictionary raises.\<close>

fun print_vars :: "(string, string) fmap \<Rightarrow> string list \<Rightarrow> msg list option" where
  "print_vars d [] = Some []"
| "print_vars d (key # keys) =
     (case fmlookup d key of
        None \<Rightarrow> None
      | Some v \<Rightarrow>
          (case print_vars d keys of
             None \<Rightarrow> None
           | Some out \<Rightarrow> Some (Env_line key (display_value v) # out)))"

text \<open>The dictionary that \<open>list_env_vars\<close> prints. An absent or empty pattern does not
  filter.\<close>

definition filtered_vars :: "string option \<Rightarrow> (string, string) fmap \<Rightarrow> (string, string) fmap" where
  "filtered_vars filter_pattern env_vars =
     (case filter_pattern of
        None \<Rightarrow> env_vars
      | Some p \<Rightarrow>
          if p \<noteq> [] then fmfilter (\<lambda>k. str_in (lower p) (lower k)) env_vars
          else env_vars)"

text \<open>\<open>list_env_vars\<close> returns what it prints, \<open>None\<close> if the loop raised.\<close>

definition list_env_vars :: "string option \<Rightarrow> world \<Rightarrow> msg list option" where
  "list_env_vars filter_pattern w =
     (let fv = filtered_vars filter_pattern (environ w)
      in if fv = fmempty then Some [No_vars_found filter_pattern]
         else (case print_vars fv (sorted_list_of_fset (fmdom fv)) of
                 None \<Rightarrow> None
               | Some out \<Rightarrow> Some ([Found (fcard (fmdom fv)), Separator] @ out)))"

subsection \<open>Reading and backing up the configuration file\<close>

definition get_shell_config_content :: "world \<Rightarrow> string list \<times> world" where
  "get_shell_config_content w =
     (case config w of
        None \<Rightarrow> ([], io [Ev_exists] w)
      | Some content \<Rightarrow>
          if read_ok w then (readlines content, io [Ev_exists, Ev_open_read] w)
          else ([], print [Err_reading] (io [Ev_exists, Ev_open_read] w)))"

definition backup_config_file :: "world \<Rightarrow> bool \<times> world" where
  "backup_config_file w =
     (case config w of
        None \<Rightarrow> (True, io [Ev_exists] w)
      | Some content \<Rightarrow>
          if cp_ok w
          then (True, print [Backup_created] (io [Ev_exists, Ev_copy] w\<lparr>backup := Some content\<rparr>))
          else (False, print [Err_backup] (io [Ev_exists, Ev_copy] w)))"

subsection \<open>\<open>set_env_var\<close> and \<open>remove_env_var\<close>\<close>

definition marker :: string where
  "marker = ''# Added by ConfigureMacKeys''"

definition export_pattern :: "string \<Rightarrow> string" where
  "export_pattern name = ''export '' @ name @ ''=''"

definition export_line :: "string \<Rightarrow> string \<Rightarrow> string" where
  "export_line name v = ''export '' @ name @ ''='' @ v @ [LF]"

text \<open>The test of both list comprehensions: the trimmed line starts with the pattern.\<close>

definition declares :: "string \<Rightarrow> string \<Rightarrow> bool" where
  "declares name line = startswith (strip line) (export_pattern name)"

text \<open>The lines \<open>set_env_var\<close> writes, from the lines it read. The blank line and the
  marker are one element of the list, as in the source.\<close>

definition patch_lines :: "string \<Rightarrow> string \<Rightarrow> string list \<Rightarrow> string list" where
  "patch_lines name v lines0 =
     (let lines1 = filter (\<lambda>line. \<not> declares name line) lines0;
          comment_line = marker @ [LF];
          lines2 = (if \<not> list_ex (\<lambda>line. str_in marker line) lines1
                    then lines1 @ [LF # comment_line] else lines1)
      in lines2 @ [export_line name v])"

definition write_config :: "string list \<Rightarrow> world \<Rightarrow> world" where
  "write_config ls w = w\<lparr>config := Some (writelines ls)\<rparr>"

definition set_env_var :: "string \<Rightarrow> string \<Rightarrow> bool \<Rightarrow> world \<Rightarrow> bool \<times> world" where
  "set_env_var name v permanent w =
     (if name = [] then (False, print [Err_empty_name] w)
      else if \<not> permanent then (True, print [Temp_hint name v] w)
      else
        (let (lines0, w1) = get_shell_config_content w;
             (ok, w2) = backup_config_file w1;
             w3 = (if \<not> ok then print [Warn_backup] w2 else w2);
             lines3 = patch_lines name v lines0
         in if \<not> mkdir_ok w3 then (False, print [Err_writing] (io [Ev_mkdir] w3))
            else if \<not> write_ok w3
              then (False, print [Err_writing] (io [Ev_mkdir, Ev_open_write] w3))
            else (True, print [Added name]
                          (write_config lines3 (io [Ev_mkdir, Ev_open_write] w3)))))"

definition remove_env_var :: "string \<Rightarrow> world \<Rightarrow> bool \<times> world" where
  "remove_env_var name w =
     (let (lines0, w1) = get_shell_config_content w
      in if lines0 = [] then (False, print [No_config_found] w1)
         else
           (let (ok, w2) = backup_config_file w1;
                w3 = (if \<not> ok then print [Warn_backup] w2 else w2);
                original_count = length lines0;
                lines1 = filter (\<lambda>line. \<not> declares name line) lines0
            in if length lines1 = original_count then (False, print [Not_found name] w3)
               else if \<not> write_ok w3
                 then (False, print [Err_writing] (io [Ev_open_write] w3))
               else
                 (let w4 = print [Removed name] (write_config lines1 (io [Ev_open_write] w3))
                  in if name |\<in>| fmdom (environ w4)
                     then (True, print [Removed_session name]
                                   (w4\<lparr>environ := fmdrop name (environ w4)\<rparr>))
                     else (True, w4))))"

text \<open>The two operations of the specification.\<close>

definition AddOrUpdate :: "string \<Rightarrow> string \<Rightarrow> world \<Rightarrow> bool \<times> world" where
  "AddOrUpdate name v w = set_env_var name v True w"

definition Remove :: "string \<Rightarrow> world \<Rightarrow> bool \<times> world" where
  "Remove name w = remove_env_var name w"

text \<open>A run of \<open>AddOrUpdate\<close> calls, each on the world the call before it left.\<close>

fun add_all :: "(string \<times> string) list \<Rightarrow> world \<Rightarrow> world" where
  "add_all [] w = w"
| "add_all ((name, v) # calls) w = add_all calls (snd (AddOrUpdate name v w))"

text \<open>A home directory without a configuration file, where every call succeeds.\<close>

definition home0 :: world where
  "home0 = \<lparr>config = None, backup = None, read_ok = True, cp_ok = True, mkdir_ok = True,
     write_ok = True, environ = fmempty, console = [], trace = []\<rparr>"

subsection \<open>Well-formed line lists\<close>

text \<open>A terminated line: not empty, one line feed, at its end.\<close>

definition tline :: "string \<Rightarrow> bool" where
  "tline l = (l \<noteq> [] \<and> last l = LF \<and> LF \<notin> set (butlast l))"

text \<open>The shape of what \<open>readlines\<close> returns: terminated lines, then possibly one
  last line without a terminator.\<close>

fun wfl :: "string list \<Rightarrow> bool" where
  "wfl [] = True"
| "wfl [l] = (l \<noteq> [] \<and> LF \<notin> set (butlast l))"
| "wfl (l # m # ls) = (tline l \<and> wfl (m # ls))"

text \<open>A text that is empty or ends with a line feed.\<close>

definition terminated :: "string \<Rightarrow> bool" where
  "terminated s = (s = [] \<or> last s = LF)"

section \<open>Properties\<close>

lemmas op_defs = set_env_var_def remove_env_var_def AddOrUpdate_def Remove_def
  get_shell_config_content_def backup_config_file_def io_def print_def write_config_def
  writelines_def

lemmas str_defs = patch_lines_def declares_def startswith_def strip_def isspace_def
  export_pattern_def export_line_def marker_def str_in_def sublist_code(3)

subsection \<open>Reading back what was written\<close>

lemma readlines_Nil_iff: "readlines s = [] \<longleftrightarrow> s = []"
  by (cases s) (auto split: list.splits)

lemma concat_readlines: "concat (readlines s) = s"
  by (induction s) (auto split: list.splits)

lemma tline_Cons: "c \<noteq> LF \<Longrightarrow> tline l \<Longrightarrow> tline (c # l)"
  by (auto simp: tline_def)

lemma tline_LF: "tline [LF]"
  by (simp add: tline_def)

lemma wfl_Cons: "tline l \<Longrightarrow> wfl ls \<Longrightarrow> wfl (l # ls)"
  by (cases ls) (auto simp: tline_def)

lemma wfl_tl: "wfl (l # ls) \<Longrightarrow> wfl ls"
  by (cases ls) auto

lemma wfl_readlines: "wfl (readlines s)"
proof (induction s)
  case Nil
  show ?case by simp
next
  case (Cons c cs)
  show ?case
  proof (cases "c = LF")
    case True
    with Cons show ?thesis by (simp add: wfl_Cons tline_LF)
  next
    case False
    show ?thesis
    proof (cases "readlines cs")
      case Nil
      with False show ?thesis by simp
    next
      case (Cons l ls)
      with Cons.IH have w: "wfl (l # ls)" by simp
      show ?thesis
      proof (cases ls)
        case Nil
        with w False Cons show ?thesis by auto
      next
        case (Cons m ms)
        with w False \<open>readlines cs = l # ls\<close> show ?thesis by (auto simp: tline_Cons)
      qed
    qed
  qed
qed


lemma readlines_tline_append: "tline l \<Longrightarrow> readlines (l @ s) = l # readlines s"
proof (induction l)
  case Nil
  then show ?case by (simp add: tline_def)
next
  case (Cons c l)
  show ?case
  proof (cases l)
    case Nil
    with Cons.prems show ?thesis by (simp add: tline_def)
  next
    case (Cons d ds)
    with Cons.prems have "c \<noteq> LF" "tline l" by (auto simp: tline_def)
    with Cons.IH show ?thesis by simp
  qed
qed

lemma readlines_concat_tlines:
  "\<forall>l\<in>set ls. tline l \<Longrightarrow> readlines (concat ls @ s) = ls @ readlines s"
  by (induction ls) (auto simp: readlines_tline_append)


lemma wfl_filter: "wfl ls \<Longrightarrow> wfl (filter P ls)"
proof (induction ls rule: wfl.induct)
  case 1
  show ?case by simp
next
  case (2 l)
  then show ?case by simp
next
  case (3 l m ls)
  then have "tline l" "wfl (filter P (m # ls))" by auto
  then show ?case by (auto simp: wfl_Cons simp del: wfl.simps)
qed

lemma readlines_terminated: "terminated s \<Longrightarrow> \<forall>l\<in>set (readlines s). tline l"
proof (induction s)
  case Nil
  show ?case by simp
next
  case (Cons c cs)
  show ?case
  proof (cases cs)
    case Nil
    with Cons.prems show ?thesis by (simp add: terminated_def tline_def)
  next
    case (Cons d ds)
    with Cons.prems have "terminated cs" by (simp add: terminated_def)
    with Cons.IH have ih: "\<forall>l\<in>set (readlines cs). tline l" by simp
    moreover from Cons have "cs \<noteq> []" by simp
    then have "readlines cs \<noteq> []" using readlines_Nil_iff [of cs] by blast
    ultimately show ?thesis
      by (cases "readlines cs") (auto simp: tline_LF tline_Cons)
  qed
qed

subsection \<open>Lines that declare a name, and the marker\<close>




lemma not_declares_marker: "\<not> declares name (marker @ [LF])"
  by (simp add: declares_def startswith_def strip_def isspace_def export_pattern_def marker_def)


lemma tline_marker: "tline (marker @ [LF])"
  by (simp add: tline_def marker_def)

lemma str_in_marker_line: "str_in marker (marker @ [LF])"
  by (simp add: str_in_def)

lemma not_str_in_blank: "\<not> str_in marker [LF]"
  by (simp add: str_in_def marker_def sublist_code)

subsection \<open>\<open>remove_env_var\<close>\<close>









subsection \<open>\<open>set_env_var\<close>\<close>

text \<open>The lines \<open>get_shell_config_content\<close> hands to its caller.\<close>

lemma lines_read:
  "fst (get_shell_config_content w) =
     (case config w of None \<Rightarrow> [] | Some c \<Rightarrow> if read_ok w then readlines c else [])"
  by (simp add: get_shell_config_content_def split: option.splits)

lemma set_env_var_ok:
  assumes "name \<noteq> []" "mkdir_ok w" "write_ok w"
  shows "fst (set_env_var name v True w)"
    and "config (snd (set_env_var name v True w)) =
           Some (concat (patch_lines name v (fst (get_shell_config_content w))))"
    and "mkdir_ok (snd (set_env_var name v True w))"
    and "write_ok (snd (set_env_var name v True w))"
  using assms
  by (cases "config w"; cases "read_ok w"; cases "cp_ok w";
      simp add: op_defs Let_def)+

lemma terminated_patch: "terminated (concat (patch_lines name v L))"
  by (simp add: terminated_def patch_lines_def Let_def export_line_def)








text \<open>
  When the marker is already in the file and the last line has no terminator, the new
  declaration is written onto the end of that line.
\<close>

lemma add_to_unterminated_file_glues_lines:
  "fst (AddOrUpdate ''X'' ''1'' (home0\<lparr>config := Some ''# Added by ConfigureMacKeys\<newline>foo''\<rparr>)) \<and>
   config (snd (AddOrUpdate ''X'' ''1''
       (home0\<lparr>config := Some ''# Added by ConfigureMacKeys\<newline>foo''\<rparr>))) =
     Some ''# Added by ConfigureMacKeys\<newline>fooexport X=1\<newline>'' \<and>
   readlines ''# Added by ConfigureMacKeys\<newline>fooexport X=1\<newline>'' =
     [''# Added by ConfigureMacKeys\<newline>'', ''fooexport X=1\<newline>'']"
  by (simp add: home0_def op_defs str_defs)





subsection \<open>The marker is written once\<close>

lemma sublist_readlines: "l \<in> set (readlines s) \<Longrightarrow> sublist l s"
proof -
  assume "l \<in> set (readlines s)"
  then obtain a b where "readlines s = a @ l # b" by (auto dest: split_list)
  then have "concat (readlines s) = concat a @ l @ concat b" by simp
  then have "s = concat a @ l @ concat b" by (simp add: concat_readlines)
  then show ?thesis unfolding sublist_def by blast
qed

lemma str_in_butlast:
  assumes "str_in m (u @ [c])" "m \<noteq> []" "last m \<noteq> c"
  shows "str_in m u"
proof -
  from assms(1) obtain ps ss where eq: "u @ [c] = ps @ m @ ss"
    unfolding str_in_def sublist_def by blast
  show ?thesis
  proof (cases ss rule: rev_cases)
    case Nil
    with eq have "last (u @ [c]) = last (ps @ m)" by simp
    with assms(2,3) show ?thesis by simp
  next
    case (snoc ss' d)
    with eq have "u @ [c] = (ps @ m @ ss') @ [d]" by simp
    then have "u = ps @ m @ ss'" by (simp only: append1_eq_conv)
    then show ?thesis unfolding str_in_def sublist_def by blast
  qed
qed

lemma marker_not_ended_by_LF: "str_in marker (u @ [LF]) \<Longrightarrow> str_in marker u"
proof -
  assume a: "str_in marker (u @ [LF])"
  have "marker \<noteq> []" and "last marker \<noteq> LF" by (simp_all add: marker_def)
  with a show ?thesis by (rule str_in_butlast)
qed

lemma no_marker_in_piece: "\<not> str_in marker s \<Longrightarrow> filter (str_in marker) (readlines s) = []"
proof -
  assume n: "\<not> str_in marker s"
  have "\<not> str_in marker l" if "l \<in> set (readlines s)" for l
  proof
    assume "str_in marker l"
    moreover from that have "sublist l s" by (rule sublist_readlines)
    ultimately have "sublist marker s"
      unfolding str_in_def by (rule sublist_order.order.trans)
    with n show False by (simp add: str_in_def)
  qed
  then show ?thesis by (simp add: filter_empty_conv)
qed

lemma readlines_after_wfl:
  assumes "wfl K" "filter (str_in marker) K = []"
  shows "\<exists>K'. readlines (concat K @ LF # rest) = K' @ readlines rest \<and>
              filter (str_in marker) K' = []"
  using assms
proof (induction K rule: wfl.induct)
  case 1
  have "readlines (concat [] @ LF # rest) = [[LF]] @ readlines rest" by simp
  moreover have "filter (str_in marker) [[LF]] = []" by (simp add: not_str_in_blank)
  ultimately show ?case by blast
next
  case (2 l)
  then have l: "l \<noteq> []" "LF \<notin> set (butlast l)" and nm: "\<not> str_in marker l"
    by (auto split: if_splits)
  show ?case
  proof (cases "last l = LF")
    case True
    with l have "tline l" by (simp add: tline_def)
    then have "readlines (concat [l] @ LF # rest) = [l, [LF]] @ readlines rest"
      using readlines_tline_append [of l "LF # rest"] by simp
    moreover have "filter (str_in marker) [l, [LF]] = []"
      using nm by (simp add: not_str_in_blank)
    ultimately show ?thesis by blast
  next
    case False
    with l have "tline (l @ [LF])"
      by (simp add: tline_def) (metis append_butlast_last_id in_set_butlast_appendI
          set_ConsD list.set(1) empty_iff set_append Un_iff)
    then have "readlines ((l @ [LF]) @ rest) = (l @ [LF]) # readlines rest"
      by (rule readlines_tline_append)
    then have "readlines (concat [l] @ LF # rest) = [l @ [LF]] @ readlines rest" by simp
    moreover have "filter (str_in marker) [l @ [LF]] = []"
      using nm marker_not_ended_by_LF [of l] by auto
    ultimately show ?thesis by blast
  qed
next
  case (3 l m ls)
  then have tl: "tline l" and w: "wfl (m # ls)" and nl: "\<not> str_in marker l"
    and nr: "filter (str_in marker) (m # ls) = []"
    by (auto split: if_splits)
  from "3.IH" [OF w nr] obtain K' where
    K': "readlines (concat (m # ls) @ LF # rest) = K' @ readlines rest"
    "filter (str_in marker) K' = []" by blast
  have "readlines (l @ (concat (m # ls) @ LF # rest)) = l # readlines (concat (m # ls) @ LF # rest)"
    using tl by (rule readlines_tline_append)
  with K'(1) have "readlines (concat (l # m # ls) @ LF # rest) = (l # K') @ readlines rest"
    by simp
  moreover have "filter (str_in marker) (l # K') = []" using nl K'(2) by simp
  ultimately show ?case by blast
qed

lemma patch_marker_first:
  assumes E: "\<not> str_in marker (export_line name v)"
    and w: "wfl L" and nm: "filter (str_in marker) L = []"
  shows "filter (str_in marker) (readlines (concat (patch_lines name v L))) = [marker @ [LF]]"
proof -
  let ?K = "filter (\<lambda>l. \<not> declares name l) L"
  let ?E = "export_line name v"
  have wK: "wfl ?K" using w by (rule wfl_filter)
  have "set ?K \<subseteq> set L" by auto
  with nm have nK: "filter (str_in marker) ?K = []"
    by (auto simp: filter_empty_conv)
  then have "\<not> list_ex (str_in marker) ?K"
    by (simp add: filter_empty_conv list_ex_iff)
  then have c: "concat (patch_lines name v L) = concat ?K @ LF # ((marker @ [LF]) @ ?E)"
    by (simp add: patch_lines_def Let_def)
  from readlines_after_wfl [OF wK nK] obtain K' where
    K': "readlines (concat ?K @ LF # ((marker @ [LF]) @ ?E)) = K' @ readlines ((marker @ [LF]) @ ?E)"
    "filter (str_in marker) K' = []" by blast
  have "readlines ((marker @ [LF]) @ ?E) = (marker @ [LF]) # readlines ?E"
    using tline_marker by (rule readlines_tline_append)
  with K'(1) c have "readlines (concat (patch_lines name v L)) = K' @ (marker @ [LF]) # readlines ?E"
    by simp
  with K'(2) no_marker_in_piece [OF E] show ?thesis
    by (simp add: str_in_marker_line)
qed

lemma patch_marker_next:
  assumes E: "\<not> str_in marker (export_line name v)"
    and t: "\<forall>l\<in>set L. tline l" and m: "filter (str_in marker) L = [marker @ [LF]]"
  shows "filter (str_in marker) (readlines (concat (patch_lines name v L))) = [marker @ [LF]]"
proof -
  let ?K = "filter (\<lambda>l. \<not> declares name l) L"
  let ?E = "export_line name v"
  have "filter (str_in marker) ?K = filter (\<lambda>l. \<not> declares name l) (filter (str_in marker) L)"
    by (simp add: conj_commute)
  with m have mK: "filter (str_in marker) ?K = [marker @ [LF]]"
    by (simp add: not_declares_marker)
  then have "filter (str_in marker) ?K \<noteq> []" by simp
  then have "list_ex (str_in marker) ?K"
    by (auto simp: filter_empty_conv list_ex_iff)
  then have c: "concat (patch_lines name v L) = concat ?K @ ?E"
    by (simp add: patch_lines_def Let_def)
  from t have "\<forall>l\<in>set ?K. tline l" by simp
  then have "readlines (concat ?K @ ?E) = ?K @ readlines ?E"
    by (rule readlines_concat_tlines)
  with c mK no_marker_in_piece [OF E] show ?thesis by simp
qed

text \<open>After a successful addition the marker is in the file, on one line.\<close>

lemma add_marker_first:
  assumes "name \<noteq> []" "mkdir_ok w" "write_ok w"
    and E: "\<not> str_in marker (export_line name v)"
    and nm: "case config w of None \<Rightarrow> True
             | Some c \<Rightarrow> \<not> list_ex (str_in marker) (readlines c)"
  shows "\<exists>c. config (snd (AddOrUpdate name v w)) = Some c \<and> terminated c \<and>
             filter (str_in marker) (readlines c) = [marker @ [LF]]"
proof -
  let ?L = "fst (get_shell_config_content w)"
  have cfg: "config (snd (AddOrUpdate name v w)) = Some (concat (patch_lines name v ?L))"
    unfolding AddOrUpdate_def using assms(1-3) by (rule set_env_var_ok(2))
  have w: "wfl ?L"
    by (simp add: lines_read wfl_readlines split: option.splits)
  have "filter (str_in marker) ?L = []"
    using nm by (simp add: lines_read filter_empty_conv list_ex_iff split: option.splits)
  with E w have "filter (str_in marker) (readlines (concat (patch_lines name v ?L))) = [marker @ [LF]]"
    by (rule patch_marker_first)
  with cfg terminated_patch show ?thesis by blast
qed

lemma add_marker_next:
  assumes "name \<noteq> []" "mkdir_ok w" "write_ok w"
    and E: "\<not> str_in marker (export_line name v)"
    and c: "config w = Some c" and t: "terminated c"
    and m: "filter (str_in marker) (readlines c) = [marker @ [LF]]"
  shows "\<exists>c'. config (snd (AddOrUpdate name v w)) = Some c' \<and> terminated c' \<and>
             filter (str_in marker) (readlines c') = [marker @ [LF]]"
proof -
  let ?L = "fst (get_shell_config_content w)"
  have cfg: "config (snd (AddOrUpdate name v w)) = Some (concat (patch_lines name v ?L))"
    unfolding AddOrUpdate_def using assms(1-3) by (rule set_env_var_ok(2))
  have "filter (str_in marker) (readlines (concat (patch_lines name v ?L))) = [marker @ [LF]]"
  proof (cases "read_ok w")
    case True
    with c have L: "?L = readlines c" by (simp add: lines_read)
    from t have "\<forall>l\<in>set (readlines c). tline l" by (rule readlines_terminated)
    with E show ?thesis unfolding L using m by (rule patch_marker_next)
  next
    case False
    with c have L: "?L = []" by (simp add: lines_read)
    show ?thesis unfolding L by (rule patch_marker_first [OF E]) simp_all
  qed
  with cfg terminated_patch show ?thesis by blast
qed

lemma add_flags:
  assumes "name \<noteq> []" "mkdir_ok w" "write_ok w"
  shows "mkdir_ok (snd (AddOrUpdate name v w))" and "write_ok (snd (AddOrUpdate name v w))"
  unfolding AddOrUpdate_def using assms by (rule set_env_var_ok(3), rule set_env_var_ok(4))

lemma add_all_marker:
  assumes "\<forall>(name, v)\<in>set calls. name \<noteq> [] \<and> \<not> str_in marker (export_line name v)"
    and "mkdir_ok w" "write_ok w"
    and "config w = Some c" "terminated c"
    and "filter (str_in marker) (readlines c) = [marker @ [LF]]"
  shows "\<exists>c'. config (add_all calls w) = Some c' \<and>
             filter (str_in marker) (readlines c') = [marker @ [LF]]"
  using assms
proof (induction calls arbitrary: w c)
  case Nil
  then show ?case by simp
next
  case (Cons call calls)
  obtain name v where call: "call = (name, v)" by (cases call)
  with Cons.prems(1) have n: "name \<noteq> []" and E: "\<not> str_in marker (export_line name v)"
    and rest: "\<forall>(name, v)\<in>set calls. name \<noteq> [] \<and> \<not> str_in marker (export_line name v)"
    by auto
  let ?w' = "snd (AddOrUpdate name v w)"
  from add_marker_next [OF n Cons.prems(2,3) E Cons.prems(4,5,6)]
  obtain c' where c': "config ?w' = Some c'" "terminated c'"
    "filter (str_in marker) (readlines c') = [marker @ [LF]]" by blast
  have "mkdir_ok ?w'" "write_ok ?w'"
    using n Cons.prems(2,3) by (rule add_flags)+
  from Cons.IH [OF rest this c'] show ?case by (simp add: call)
qed

text \<open>
  Claim C2, amended. A marker line is a line that contains the marker text, which is the
  test the code makes. Take one or more \<open>AddOrUpdate\<close> calls, each with a non-empty name
  and with a declaration \<open>export name=value\<close> that does not contain the marker text, in a
  world where creating the directory and writing succeed, starting from a configuration
  file that is absent or has no marker line. Then the file left by the calls has exactly
  one marker line, and it is the sentinel line itself.
\<close>

theorem marker_written_once:
  assumes "calls \<noteq> []"
    and "\<forall>(name, v)\<in>set calls. name \<noteq> [] \<and> \<not> str_in marker (export_line name v)"
    and "mkdir_ok w" "write_ok w"
    and "case config w of None \<Rightarrow> True
         | Some c \<Rightarrow> \<not> list_ex (str_in marker) (readlines c)"
  shows "\<exists>c'. config (add_all calls w) = Some c' \<and>
             filter (str_in marker) (readlines c') = [marker @ [LF]]"
proof -
  from assms(1) obtain call calls' where calls: "calls = call # calls'" by (cases calls) auto
  obtain name v where call: "call = (name, v)" by (cases call)
  from assms(2) calls call have n: "name \<noteq> []" and E: "\<not> str_in marker (export_line name v)"
    and rest: "\<forall>(name, v)\<in>set calls'. name \<noteq> [] \<and> \<not> str_in marker (export_line name v)"
    by auto
  let ?w' = "snd (AddOrUpdate name v w)"
  from add_marker_first [OF n assms(3,4) E assms(5)]
  obtain c where c: "config ?w' = Some c" "terminated c"
    "filter (str_in marker) (readlines c) = [marker @ [LF]]" by blast
  have "mkdir_ok ?w'" "write_ok ?w'"
    using n assms(3,4) by (rule add_flags)+
  from add_all_marker [OF rest this c] show ?thesis by (simp add: calls call)
qed

theorem marker_written_once_witness:
  "\<exists>c'. config (add_all [(''A'', ''1''), (''B'', ''2'')] home0) = Some c' \<and>
        filter (str_in marker) (readlines c') = [marker @ [LF]]"
proof -
  have h1: "[(''A'', ''1''), (''B'', ''2'')] \<noteq> []" by simp
  have h2: "\<forall>(name, v)\<in>set [(''A'', ''1''), (''B'', ''2'')].
              name \<noteq> [] \<and> \<not> str_in marker (export_line name v)"
    by (simp add: str_defs)
  have h3: "mkdir_ok home0" and h4: "write_ok home0" by (simp_all add: home0_def)
  have h5: "case config home0 of None \<Rightarrow> True
            | Some c \<Rightarrow> \<not> list_ex (str_in marker) (readlines c)"
    by (simp add: home0_def)
  show ?thesis by (rule marker_written_once [OF h1 h2 h3 h4 h5])
qed

text \<open>
  The claim as first stated fails for a value that carries the sentinel after a line
  feed: one call on an empty home directory leaves two sentinel lines.
\<close>

theorem marker_written_once_counterexample:
  "config (add_all [(''X'', ''1\<newline># Added by ConfigureMacKeys'')] home0) =
     Some ''\<newline># Added by ConfigureMacKeys\<newline>export X=1\<newline># Added by ConfigureMacKeys\<newline>'' \<and>
   filter (str_in marker)
     (readlines ''\<newline># Added by ConfigureMacKeys\<newline>export X=1\<newline># Added by ConfigureMacKeys\<newline>'') =
     [''# Added by ConfigureMacKeys\<newline>'', ''# Added by ConfigureMacKeys\<newline>'']"
  by (simp add: home0_def op_defs str_defs)

text \<open>
  Without a line feed the value still adds a second line that contains the marker
  text.
\<close>

lemma marker_text_in_value_counted_twice:
  "config (add_all [(''X'', ''# Added by ConfigureMacKeys'')] home0) =
     Some ''\<newline># Added by ConfigureMacKeys\<newline>export X=# Added by ConfigureMacKeys\<newline>'' \<and>
   filter (str_in marker)
     (readlines ''\<newline># Added by ConfigureMacKeys\<newline>export X=# Added by ConfigureMacKeys\<newline>'') =
     [''# Added by ConfigureMacKeys\<newline>'', ''export X=# Added by ConfigureMacKeys\<newline>'']"
  by (simp add: home0_def op_defs str_defs)

subsection \<open>\<open>list_env_vars\<close>: what is listed\<close>

lemma sorted_list_of_fset_sorted: "sorted (sorted_list_of_fset S)"
  by (simp add: sorted_list_of_fset.rep_eq)

lemma sorted_list_of_fset_distinct: "distinct (sorted_list_of_fset S)"
  by (simp add: sorted_list_of_fset.rep_eq)

lemma sorted_list_of_fset_length: "length (sorted_list_of_fset S) = fcard S"
  by (simp add: sorted_list_of_fset.rep_eq fcard.rep_eq)

lemma sorted_list_of_fset_Nil_iff: "sorted_list_of_fset S = [] \<longleftrightarrow> S = {||}"
proof
  assume "sorted_list_of_fset S = []"
  then have "set (sorted_list_of_fset S) = {}" by simp
  then have "fset S = {}" by simp
  then have "fset S = fset {||}" by simp
  then show "S = {||}" by (simp only: fset_inject)
next
  assume "S = {||}"
  then show "sorted_list_of_fset S = []" by (simp add: sorted_list_of_fset.rep_eq)
qed

lemma fmdom_fempty_iff: "fmdom m = {||} \<longleftrightarrow> m = fmempty"
proof
  assume d: "fmdom m = {||}"
  show "m = fmempty"
  proof (rule fmap_ext)
    fix x
    from d have "x |\<notin>| fmdom m" by simp
    then show "fmlookup m x = fmlookup fmempty x" by (simp add: fmdom_notD)
  qed
next
  assume "m = fmempty"
  then show "fmdom m = {||}" by simp
qed

lemma print_vars_total:
  "\<forall>k\<in>set keys. k |\<in>| fmdom d \<Longrightarrow>
   print_vars d keys =
     Some (map (\<lambda>(k, v). Env_line k (display_value v)) (map (\<lambda>k. (k, the (fmlookup d k))) keys))"
proof (induction keys)
  case Nil
  show ?case by simp
next
  case (Cons k keys)
  then obtain v where "fmlookup d k = Some v" by (auto simp: fmlookup_dom_iff)
  with Cons show ?case by simp
qed

lemma filtered_vars_lookup:
  "fmlookup (filtered_vars flt env) k = Some v \<longleftrightarrow>
   fmlookup env k = Some v \<and> (case flt of None \<Rightarrow> True | Some p \<Rightarrow> str_in (lower p) (lower k))"
  by (cases flt) (simp_all add: filtered_vars_def str_in_def lower_def)

text \<open>
  Claim C9. \<open>list_env_vars\<close> never raises, and what it prints is determined by a list
  of (key, value) pairs: one line per pair, in the order of the list, with the value in
  its display form, after the count and the separator (or the single not-found message
  when the list is empty). The keys of the list are strictly ascending in the
  lexicographic order of strings, and the pairs are exactly the entries of the
  environment whose lower-cased key contains the lower-cased pattern; without a pattern
  they are all the entries.
\<close>

theorem list_env_vars_sorted_filtered:
  "\<exists>pairs.
     list_env_vars flt w =
       Some (if pairs = [] then [No_vars_found flt]
             else [Found (length pairs), Separator] @
                  map (\<lambda>(k, v). Env_line k (display_value v)) pairs) \<and>
     sorted (map fst pairs) \<and> distinct (map fst pairs) \<and>
     set pairs =
       {(k, v). fmlookup (environ w) k = Some v \<and>
                (case flt of None \<Rightarrow> True | Some p \<Rightarrow> str_in (lower p) (lower k))}"
proof -
  define fv where "fv = filtered_vars flt (environ w)"
  define keys where "keys = sorted_list_of_fset (fmdom fv)"
  define pairs where "pairs = map (\<lambda>k. (k, the (fmlookup fv k))) keys"
  have keys_dom: "\<forall>k\<in>set keys. k |\<in>| fmdom fv"
    by (simp add: keys_def)
  have fst_pairs: "map fst pairs = keys"
    by (simp add: pairs_def comp_def)
  have empty_iff: "pairs = [] \<longleftrightarrow> fv = fmempty"
    by (simp add: pairs_def keys_def sorted_list_of_fset_Nil_iff fmdom_fempty_iff)
  have len: "length pairs = fcard (fmdom fv)"
    by (simp add: pairs_def keys_def sorted_list_of_fset_length)
  have unf: "list_env_vars flt w =
      (if fv = fmempty then Some [No_vars_found flt]
       else (case print_vars fv keys of
               None \<Rightarrow> None
             | Some out \<Rightarrow> Some ([Found (fcard (fmdom fv)), Separator] @ out)))"
    unfolding list_env_vars_def fv_def keys_def Let_def ..
  have pv: "print_vars fv keys = Some (map (\<lambda>(k, v). Env_line k (display_value v)) pairs)"
    unfolding pairs_def by (rule print_vars_total) (rule keys_dom)
  have out: "list_env_vars flt w =
       Some (if pairs = [] then [No_vars_found flt]
             else [Found (length pairs), Separator] @
                  map (\<lambda>(k, v). Env_line k (display_value v)) pairs)"
  proof (cases "fv = fmempty")
    case True
    with empty_iff have "pairs = []" by simp
    with True unf show ?thesis by simp
  next
    case False
    with empty_iff have "pairs \<noteq> []" by simp
    with False unf pv len show ?thesis by simp
  qed
  have srt: "sorted (map fst pairs)"
    unfolding fst_pairs keys_def by (rule sorted_list_of_fset_sorted)
  have dst: "distinct (map fst pairs)"
    unfolding fst_pairs keys_def by (rule sorted_list_of_fset_distinct)
  have sp: "set pairs = {(k, v). fmlookup fv k = Some v}"
  proof (rule set_eqI)
    fix x :: "string \<times> string"
    obtain k v where x: "x = (k, v)" by (cases x)
    have "(k, v) \<in> set pairs \<longleftrightarrow> k |\<in>| fmdom fv \<and> v = the (fmlookup fv k)"
      by (auto simp: pairs_def keys_def)
    also have "\<dots> \<longleftrightarrow> fmlookup fv k = Some v"
      by (auto simp: fmlookup_dom_iff)
    finally show "x \<in> set pairs \<longleftrightarrow> x \<in> {(k, v). fmlookup fv k = Some v}"
      by (simp add: x)
  qed
  have st: "set pairs =
       {(k, v). fmlookup (environ w) k = Some v \<and>
                (case flt of None \<Rightarrow> True | Some p \<Rightarrow> str_in (lower p) (lower k))}"
    unfolding sp fv_def by (simp only: filtered_vars_lookup)
  from out srt dst st show ?thesis by blast
qed

text \<open>A run: the pattern \<open>pa\<close> keeps \<open>MANPATH\<close> and \<open>PATH\<close>, in this order.\<close>

lemma list_path_example:
  "list_env_vars (Some ''pa'')
     (home0\<lparr>environ := fmupd ''PATH'' ''/bin'' (fmupd ''HOME'' ''/root''
                 (fmupd ''MANPATH'' ''/man'' fmempty))\<rparr>) =
   Some [Found 2, Separator, Env_line ''MANPATH'' ''/man'', Env_line ''PATH'' ''/bin'']"
  by code_simp

subsection \<open>Concrete runs\<close>

text \<open>
  Claim C7. \<open>AddOrUpdate\<close> with the empty name fails, whatever the value: the world it
  returns is the one it was given with the error message on the console. The trace of
  file-system calls, the configuration file and the backup are untouched, so the file was
  neither looked for, read, copied nor written.
\<close>

theorem empty_name_rejected_without_file_access:
  "AddOrUpdate [] v w = (False, w\<lparr>console := console w @ [Err_empty_name]\<rparr>)"
  by (simp add: AddOrUpdate_def set_env_var_def print_def)

text \<open>
  Claim C8. When the configuration file does not exist, or exists with no line in it,
  \<open>Remove\<close> fails at once: the configuration file and the backup are as before, the
  only file-system calls are the existence test and (for an existing file) the read, and
  the last thing printed is that no configuration file was found.
\<close>

theorem remove_nothing_to_remove:
  "config w = None \<or> config w = Some [] \<Longrightarrow>
   fst (Remove name w) = False \<and>
   config (snd (Remove name w)) = config w \<and>
   backup (snd (Remove name w)) = backup w \<and>
   trace (snd (Remove name w)) =
     trace w @ (case config w of None \<Rightarrow> [Ev_exists] | Some c \<Rightarrow> [Ev_exists, Ev_open_read]) \<and>
   last (console (snd (Remove name w))) = No_config_found"
  by (cases "read_ok w") (auto simp add: op_defs)

theorem remove_nothing_to_remove_witness:
  "(config home0 = None \<or> config home0 = Some []) \<and>
   fst (Remove ''FOO'' home0) = False \<and>
   config (snd (Remove ''FOO'' home0)) = None \<and>
   backup (snd (Remove ''FOO'' home0)) = None \<and>
   trace (snd (Remove ''FOO'' home0)) = [Ev_exists] \<and>
   last (console (snd (Remove ''FOO'' home0))) = No_config_found"
  using remove_nothing_to_remove [of home0 "''FOO''"] by (simp add: home0_def)

text \<open>
  Claim C6. On the file \<open>export FOO=1\<close>, \<open>export BAR=2\<close> (both lines terminated), where
  reading and writing succeed, \<open>AddOrUpdate FOO 9\<close> succeeds and leaves the file with the
  four lines \<open>export BAR=2\<close>, a blank line, the marker and \<open>export FOO=9\<close>, the last one
  terminated.
\<close>

theorem scenario_update_foo:
  "fst (AddOrUpdate ''FOO'' ''9''
     (w\<lparr>config := Some ''export FOO=1\<newline>export BAR=2\<newline>'',
        read_ok := True, mkdir_ok := True, write_ok := True\<rparr>)) \<and>
   config (snd (AddOrUpdate ''FOO'' ''9''
     (w\<lparr>config := Some ''export FOO=1\<newline>export BAR=2\<newline>'',
        read_ok := True, mkdir_ok := True, write_ok := True\<rparr>))) =
     Some ''export BAR=2\<newline>\<newline># Added by ConfigureMacKeys\<newline>export FOO=9\<newline>'' \<and>
   readlines ''export BAR=2\<newline>\<newline># Added by ConfigureMacKeys\<newline>export FOO=9\<newline>'' =
     [''export BAR=2\<newline>'', ''\<newline>'', ''# Added by ConfigureMacKeys\<newline>'',
      ''export FOO=9\<newline>'']"
  by (simp add: op_defs str_defs)

text \<open>
  After a failed read \<open>Remove\<close> stops: the empty list of lines makes it report that
  there is no configuration file, before the backup and before any write.
\<close>

lemma remove_after_failed_read_aborts:
  "config w = Some c \<Longrightarrow> \<not> read_ok w \<Longrightarrow>
   Remove name w =
     (False, w\<lparr>console := console w @ [Err_reading, No_config_found],
               trace := trace w @ [Ev_exists, Ev_open_read]\<rparr>)"
  by (simp add: op_defs)

text \<open>
  Claim C5. The configuration file exists with the content \<open>alias ll=ls\<close> and reading it
  fails, while copying and writing work. \<open>AddOrUpdate FOO 1\<close> prints the read error and
  goes on with no lines: it reports success and replaces the file by the marker block and
  the new declaration, so the line \<open>alias ll=ls\<close> survives in the backup only.
\<close>

theorem add_after_failed_read_overwrites:
  "AddOrUpdate ''FOO'' ''1''
     (w\<lparr>config := Some ''alias ll=ls\<newline>'', read_ok := False, cp_ok := True,
        mkdir_ok := True, write_ok := True\<rparr>) =
   (True, w\<lparr>config := Some ''\<newline># Added by ConfigureMacKeys\<newline>export FOO=1\<newline>'',
      backup := Some ''alias ll=ls\<newline>'',
      read_ok := False, cp_ok := True, mkdir_ok := True, write_ok := True,
      console := console w @ [Err_reading, Backup_created, Added ''FOO''],
      trace := trace w @ [Ev_exists, Ev_open_read, Ev_exists, Ev_copy, Ev_mkdir, Ev_open_write]\<rparr>)"
  by (simp add: op_defs str_defs)

end
